theory Spec2Isabelle
  imports Main "HOL-Library.Word"
begin

section \<open>Delivery channels of \<^verbatim>\<open>cppForSwig/BDM_Server.h\<close>\<close>

text \<open>
  The C++ member names end in an underscore (\<^verbatim>\<open>mu_\<close>, \<^verbatim>\<open>count_\<close>, ...), which is not a
  legal constant name here: every field below carries the member's name without that
  underscore.

  The header is embedded sequentially, from the point of view of the thread that makes a
  call. What the other threads have done shows in the state the call starts from: the
  field \<open>mu\<close> of a channel is \<open>True\<close> exactly when another thread holds the mutex
  \<^verbatim>\<open>mu_\<close> (the header's own comment in \<^verbatim>\<open>LongPoll::shutdown\<close> names the holders: the
  responder threads).
\<close>

subsection \<open>Constants and enumerations\<close>

text \<open>
  \<^verbatim>\<open>#define CALLBACK_EXPIRE_COUNT 5\<close>. The comparison in \<^verbatim>\<open>isValid\<close> is made against an
  \<^verbatim>\<open>unsigned\<close>, so the literal is converted to \<^verbatim>\<open>unsigned\<close> (32 bits wide).
\<close>

definition CALLBACK_EXPIRE_COUNT :: "32 word" where
  "CALLBACK_EXPIRE_COUNT = 5"

datatype WalletType = TypeWallet | TypeLockbox

subsection \<open>The notification queue\<close>

text \<open>
  Modelled from the spec: the class \<^verbatim>\<open>TimedStack<T>\<close>, declared in a header that is not
  in the sources; the channel only calls \<^verbatim>\<open>push_back\<close> and \<^verbatim>\<open>terminate\<close> on it. The
  spec: "an unbounded, time-ordered, thread-safe queue of pending notifications",
  "terminable". The queue is the list of its pending items, oldest first, with the flag
  that \<^verbatim>\<open>terminate\<close> raises.
\<close>

record 'a TimedStack =
  items :: "'a list"
  terminated :: bool

definition empty_stack :: "'a TimedStack" where
  "empty_stack = \<lparr>items = [], terminated = False\<rparr>"

text \<open>
  Modelled from the spec: \<^verbatim>\<open>TimedStack::push_back\<close> (the class is not in the sources).
  The spec: delivery "appends to the internal queue; never blocks; never fails".
\<close>

definition push_back :: "'a TimedStack \<Rightarrow> 'a \<Rightarrow> 'a TimedStack" where
  "push_back st x = st\<lparr>items := items st @ [x]\<rparr>"

text \<open>
  Modelled from the spec: \<^verbatim>\<open>TimedStack::terminate\<close> (the class is not in the sources).
  The spec: shutdown "marks the queue terminated".
\<close>

definition terminate :: "'a TimedStack \<Rightarrow> 'a TimedStack" where
  "terminate st = st\<lparr>terminated := True\<rparr>"

subsection \<open>\<^verbatim>\<open>class LongPoll : public Callback\<close>\<close>

record 'n LongPoll =
  mu :: bool
  count :: "32 word"
  notificationStack :: "'n TimedStack"
  isReady :: "unit \<Rightarrow> 32 word"

text \<open>The constructor stores \<^verbatim>\<open>isReady\<close> and 0 in the counter; the mutex starts free.\<close>

definition LongPoll_ctor :: "(unit \<Rightarrow> 32 word) \<Rightarrow> 'n LongPoll" where
  "LongPoll_ctor isReady_fn =
     \<lparr>mu = False, count = 0, notificationStack = empty_stack, isReady = isReady_fn\<rparr>"

text \<open>\<^verbatim>\<open>void resetCounter(void) { count_.store(0, memory_order_relaxed); }\<close>\<close>

definition resetCounter_LongPoll :: "'n LongPoll \<Rightarrow> 'n LongPoll" where
  "resetCounter_LongPoll lp = lp\<lparr>count := 0\<rparr>"

text \<open>
  \<^verbatim>\<open>bool isValid(void)\<close>: \<^verbatim>\<open>try_lock\<close> succeeds when no other thread holds the mutex
  (where the C++ standard lets it fail without a holder, the call takes the branch of the
  held mutex). \<^verbatim>\<open>fetch_add(1) + 1\<close> is the counter's new value, in unsigned arithmetic.
  The lock taken by a successful \<^verbatim>\<open>try_lock\<close> is released when the call returns, so the
  mutex is as free after the call as before.
\<close>

definition isValid_LongPoll :: "'n LongPoll \<Rightarrow> bool \<times> 'n LongPoll" where
  "isValid_LongPoll lp =
     (if \<not> mu lp then
        (let c = count lp + 1; lp' = lp\<lparr>count := c\<rparr>
         in if c \<ge> CALLBACK_EXPIRE_COUNT then (False, lp') else (True, lp'))
      else (True, lp))"

text \<open>\<^verbatim>\<open>void callback(command) { notificationStack_.push_back(move(command)); }\<close>\<close>

definition callback_LongPoll :: "'n LongPoll \<Rightarrow> 'n \<Rightarrow> 'n LongPoll" where
  "callback_LongPoll lp command = lp\<lparr>notificationStack := push_back (notificationStack lp) command\<rparr>"

text \<open>
  A call that takes a mutex either returns, or waits for a mutex that another thread
  holds. \<open>Blocks s\<close> is the state in which the call waits.
\<close>

datatype 'a outcome = Returns 'a | Blocks 'a

fun then_do :: "'a outcome \<Rightarrow> ('a \<Rightarrow> 'a outcome) \<Rightarrow> 'a outcome" where
  "then_do (Returns s) f = f s"
| "then_do (Blocks s) f = Blocks s"

text \<open>
  \<^verbatim>\<open>void shutdown(void)\<close>: the queue is terminated first; then
  \<^verbatim>\<open>unique_lock<mutex> lock(mu_)\<close> waits until the mutex is free, and releases it at the
  closing brace.
\<close>

definition shutdown_LongPoll :: "'n LongPoll \<Rightarrow> 'n LongPoll outcome" where
  "shutdown_LongPoll lp =
     (let lp' = lp\<lparr>notificationStack := terminate (notificationStack lp)\<rparr>
      in if mu lp' then Blocks lp' else Returns lp')"

text \<open>\<open>n\<close> liveness checks in a row, with the answers in the order they were given.\<close>

fun isValid_repeat :: "nat \<Rightarrow> 'n LongPoll \<Rightarrow> bool list \<times> 'n LongPoll" where
  "isValid_repeat 0 lp = ([], lp)"
| "isValid_repeat (Suc n) lp =
     (let (r, lp') = isValid_LongPoll lp; (rs, lp'') = isValid_repeat n lp'
      in (r # rs, lp''))"

text \<open>
  The calls of the header's own that reach a channel and are not \<^verbatim>\<open>resetCounter\<close>, with
  the other threads taking and releasing the mutex, for the statements about every
  history without a reset.
\<close>

datatype 'n counting_call =
  Count_callback 'n | Count_isValid | Count_shutdown | Count_lock | Count_unlock

fun counting_step :: "'n LongPoll \<Rightarrow> 'n counting_call \<Rightarrow> 'n LongPoll" where
  "counting_step lp (Count_callback n) = callback_LongPoll lp n"
| "counting_step lp Count_isValid = snd (isValid_LongPoll lp)"
| "counting_step lp Count_shutdown =
     (case shutdown_LongPoll lp of Returns lp' \<Rightarrow> lp' | Blocks lp' \<Rightarrow> lp')"
| "counting_step lp Count_lock = lp\<lparr>mu := True\<rparr>"
| "counting_step lp Count_unlock = lp\<lparr>mu := False\<rparr>"

subsection \<open>\<^verbatim>\<open>class Callback\<close> and \<^verbatim>\<open>class WS_Callback\<close>\<close>

text \<open>
  The abstract class with its two subclasses is a datatype with two constructors;
  \<^verbatim>\<open>WS_Callback\<close> has the one member \<^verbatim>\<open>const uint64_t bdvID_\<close>. A virtual call is a
  function defined by cases.
\<close>

datatype 'n Callback = LongPoll_cb "'n LongPoll" | WS_Callback "64 word"

fun isValid :: "'n Callback \<Rightarrow> bool \<times> 'n Callback" where
  "isValid (LongPoll_cb lp) = (let (r, lp') = isValid_LongPoll lp in (r, LongPoll_cb lp'))"
| "isValid (WS_Callback bdvid) = (True, WS_Callback bdvid)"

fun shutdown :: "'n Callback \<Rightarrow> 'n Callback outcome" where
  "shutdown (LongPoll_cb lp) =
     (case shutdown_LongPoll lp of
        Returns lp' \<Rightarrow> Returns (LongPoll_cb lp')
      | Blocks lp' \<Rightarrow> Blocks (LongPoll_cb lp'))"
| "shutdown (WS_Callback bdvid) = Returns (WS_Callback bdvid)"

text \<open>Two calls of \<^verbatim>\<open>shutdown\<close>, one after the other returns.\<close>

definition shutdown_twice :: "'n Callback \<Rightarrow> 'n Callback outcome" where
  "shutdown_twice ch = then_do (shutdown ch) shutdown"

text \<open>
  The destructor \<^verbatim>\<open>~LongPoll\<close> is a call of \<^verbatim>\<open>shutdown\<close>; a channel that was shut down
  explicitly and is then destroyed has had \<^verbatim>\<open>shutdown\<close> called twice.
\<close>

definition LongPoll_dtor :: "'n LongPoll \<Rightarrow> 'n LongPoll outcome" where
  "LongPoll_dtor lp = shutdown_LongPoll lp"

text \<open>
  Modelled from the spec: \<^verbatim>\<open>LongPoll::respond\<close> and \<^verbatim>\<open>LongPoll::respond_inner\<close>, which
  the header only declares. The spec: respond "blocks until either (a) at least one
  notification is queued, or (b) the owning session signals not-ready/shutting-down, or
  (c) a bounded wait elapses. On waking with data, atomically drains all currently queued
  notifications into an ordered batch, resets the expiry counter to 0, and returns the
  batch. If awakened by termination, returns an empty/terminal result and all future
  calls must report terminated." \<open>Waiting\<close> is the call that still blocks: nothing is
  queued and nothing was terminated. The exclusion is taken for the length of the call and
  released at its end, so a call that returns leaves \<open>mu\<close> as it found it.
\<close>

datatype 'n poll_result = Batch "'n list" | Terminal | Waiting

definition pop_all :: "'a TimedStack \<Rightarrow> 'a list \<times> 'a TimedStack" where
  "pop_all st = (items st, st\<lparr>items := []\<rparr>)"

definition respond_inner :: "'n list \<Rightarrow> 'n poll_result" where
  "respond_inner orderVec = Batch orderVec"

definition respond :: "'n LongPoll \<Rightarrow> 'n poll_result \<times> 'n LongPoll" where
  "respond lp =
     (if terminated (notificationStack lp) then (Terminal, lp)
      else if items (notificationStack lp) = [] then (Waiting, lp)
      else (let (orderVec, st) = pop_all (notificationStack lp)
            in (respond_inner orderVec, resetCounter_LongPoll (lp\<lparr>notificationStack := st\<rparr>))))"

text \<open>
  The calls that can reach one channel, for the statements about every later call. The
  last two are the other threads taking and releasing the mutex.
\<close>

datatype 'n LongPoll_call =
  Call_callback 'n | Call_isValid | Call_resetCounter | Call_respond | Call_shutdown
  | Env_lock | Env_unlock

fun outcome_state :: "'a outcome \<Rightarrow> 'a" where
  "outcome_state (Returns s) = s"
| "outcome_state (Blocks s) = s"

fun LongPoll_step :: "'n LongPoll \<Rightarrow> 'n LongPoll_call \<Rightarrow> 'n LongPoll" where
  "LongPoll_step lp (Call_callback n) = callback_LongPoll lp n"
| "LongPoll_step lp Call_isValid = snd (isValid_LongPoll lp)"
| "LongPoll_step lp Call_resetCounter = resetCounter_LongPoll lp"
| "LongPoll_step lp Call_respond = snd (respond lp)"
| "LongPoll_step lp Call_shutdown = outcome_state (shutdown_LongPoll lp)"
| "LongPoll_step lp Env_lock = lp\<lparr>mu := True\<rparr>"
| "LongPoll_step lp Env_unlock = lp\<lparr>mu := False\<rparr>"

section \<open>Sessions: \<^verbatim>\<open>class BDV_Server_Object\<close>\<close>

text \<open>
  Modelled from the spec: \<^verbatim>\<open>std::thread\<close> and its \<^verbatim>\<open>join\<close>, as far as the spec speaks of
  them: a thread is started, and joining a started thread waits until it has terminated.
\<close>

datatype thread = NotStarted | Running | Joined

fun join :: "thread \<Rightarrow> thread" where
  "join Running = Joined"
| "join t = t"

text \<open>\<^verbatim>\<open>struct walletRegStruct { command_; type_; }\<close>, with the command opaque (\<open>'c\<close>).\<close>

record 'c walletRegStruct =
  command :: 'c
  type :: WalletType

text \<open>
  The members of the session that the header's own code or the statements below read: the
  worker thread \<^verbatim>\<open>initT_\<close>, the channel \<^verbatim>\<open>cb_\<close> (a \<^verbatim>\<open>unique_ptr\<close>, which may be null),
  the identifier, the buffer of registrations \<^verbatim>\<open>wltRegMap_\<close> (a \<^verbatim>\<open>std::map\<close> keyed by
  the entity's identifier) and the readiness promise, \<open>True\<close> once it is fulfilled. The
  notifications (\<open>'n\<close>) and the ledger handles (\<open>'h\<close>) are opaque.
\<close>

text \<open>
  Modelled from the spec: the field \<open>watchSet\<close>, the resolved watch-set that the base
  class \<^verbatim>\<open>BlockDataViewer\<close> (not in the sources) holds: "a mapping from watched-entity ID
  to a ledger view handle".
\<close>

record ('n, 'c, 'h) BDV_Server_Object =
  initT :: thread
  cb :: "'n Callback option"
  bdvID :: string
  wltRegMap :: "string \<rightharpoonup> 'c walletRegStruct"
  isReadyPromise :: bool
  watchSet :: "string \<rightharpoonup> 'h"

datatype error =
  DuplicateSession | UnknownSession | UnknownEntity | UnsupportedCommand
  | ChannelTerminated | ActivationMisuse

text \<open>
  \<^verbatim>\<open>void resetCounter(void)\<close> of the session: the \<^verbatim>\<open>dynamic_cast<LongPoll*>\<close> of
  \<^verbatim>\<open>cb_.get()\<close> is null for a null pointer and for a \<^verbatim>\<open>WS_Callback\<close>; only a non-null
  result is dereferenced.
\<close>

definition resetCounter :: "('n, 'c, 'h) BDV_Server_Object \<Rightarrow> ('n, 'c, 'h) BDV_Server_Object" where
  "resetCounter bdv =
     (case cb bdv of
        Some (LongPoll_cb longpoll) \<Rightarrow> bdv\<lparr>cb := Some (LongPoll_cb (resetCounter_LongPoll longpoll))\<rparr>
      | _ \<Rightarrow> bdv)"

text \<open>
  Modelled from the spec: the constructor \<^verbatim>\<open>BDV_Server_Object(id, bdmT)\<close>, whose body is
  not in the sources. The spec: a session is "created on register-session command",
  then "pending registrations accumulate"; the channel is installed by the registry.
\<close>

definition BDV_Server_Object_ctor :: "string \<Rightarrow> ('n, 'c, 'h) BDV_Server_Object" where
  "BDV_Server_Object_ctor ident =
     \<lparr>initT = NotStarted, cb = None, bdvID = ident, wltRegMap = Map.empty,
      isReadyPromise = False, watchSet = Map.empty\<rparr>"

text \<open>
  Modelled from the spec: \<^verbatim>\<open>registerWallet\<close> and \<^verbatim>\<open>registerLockbox\<close>, which the header
  only declares. The spec: registerWatch(entityID, kind, command) "before activation,
  buffers the registration under a dedicated lock keyed by entity ID (last-write-wins on
  duplicate entity ID within the same session). After activation, registrations are
  applied immediately and resolved against the chain-state engine rather than buffered."
  The chain-state engine is the parameter \<open>resolve\<close>.
\<close>

definition registerWatch ::
  "('c walletRegStruct \<Rightarrow> 'h) \<Rightarrow> ('n, 'c, 'h) BDV_Server_Object \<Rightarrow> string \<Rightarrow> WalletType \<Rightarrow> 'c
     \<Rightarrow> ('n, 'c, 'h) BDV_Server_Object" where
  "registerWatch resolve bdv entityID kind cmd =
     (let reg = \<lparr>command = cmd, type = kind\<rparr>
      in if isReadyPromise bdv then bdv\<lparr>watchSet := (watchSet bdv)(entityID \<mapsto> resolve reg)\<rparr>
         else bdv\<lparr>wltRegMap := (wltRegMap bdv)(entityID \<mapsto> reg)\<rparr>)"

definition registerWallet ::
  "('c walletRegStruct \<Rightarrow> 'h) \<Rightarrow> ('n, 'c, 'h) BDV_Server_Object \<Rightarrow> string \<Rightarrow> 'c
     \<Rightarrow> ('n, 'c, 'h) BDV_Server_Object" where
  "registerWallet resolve bdv entityID cmd = registerWatch resolve bdv entityID TypeWallet cmd"

definition registerLockbox ::
  "('c walletRegStruct \<Rightarrow> 'h) \<Rightarrow> ('n, 'c, 'h) BDV_Server_Object \<Rightarrow> string \<Rightarrow> 'c
     \<Rightarrow> ('n, 'c, 'h) BDV_Server_Object" where
  "registerLockbox resolve bdv entityID cmd = registerWatch resolve bdv entityID TypeLockbox cmd"

text \<open>
  Modelled from the spec: \<^verbatim>\<open>populateWallets\<close> and the activation around it (\<^verbatim>\<open>init\<close>,
  \<^verbatim>\<open>startThreads\<close>), which the header only declares. The spec: activate() "takes the
  registration lock once, drains the buffer, resolves each entry into a live watch (via
  the external chain-state engine), installs the readiness gate as fulfilled exactly once
  (re-activation is a programming error / fails fast), and starts the session's own
  background worker thread".
\<close>

definition populateWallets ::
  "('c walletRegStruct \<Rightarrow> 'h) \<Rightarrow> ('n, 'c, 'h) BDV_Server_Object \<Rightarrow> (string \<rightharpoonup> 'c walletRegStruct)
     \<Rightarrow> ('n, 'c, 'h) BDV_Server_Object" where
  "populateWallets resolve bdv wltMap =
     bdv\<lparr>watchSet := watchSet bdv ++ (\<lambda>entityID. map_option resolve (wltMap entityID))\<rparr>"

definition activate ::
  "('c walletRegStruct \<Rightarrow> 'h) \<Rightarrow> ('n, 'c, 'h) BDV_Server_Object
     \<Rightarrow> error + ('n, 'c, 'h) BDV_Server_Object" where
  "activate resolve bdv =
     (if isReadyPromise bdv then Inl ActivationMisuse
      else Inr ((populateWallets resolve bdv (wltRegMap bdv))
                  \<lparr>wltRegMap := Map.empty, isReadyPromise := True, initT := Running\<rparr>))"

text \<open>The registrations of a session, made one after the other.\<close>

fun registerAll ::
  "('c walletRegStruct \<Rightarrow> 'h) \<Rightarrow> ('n, 'c, 'h) BDV_Server_Object \<Rightarrow> (string \<times> WalletType \<times> 'c) list
     \<Rightarrow> ('n, 'c, 'h) BDV_Server_Object" where
  "registerAll resolve bdv [] = bdv"
| "registerAll resolve bdv ((entityID, kind, cmd) # regs) =
     registerAll resolve (registerWatch resolve bdv entityID kind cmd) regs"

text \<open>The registration that a list of registrations leaves for an identifier: the last.\<close>

fun lastReg :: "(string \<times> WalletType \<times> 'c) list \<Rightarrow> string \<rightharpoonup> 'c walletRegStruct" where
  "lastReg [] = Map.empty"
| "lastReg ((entityID, kind, cmd) # regs) =
     (\<lambda>k. case lastReg regs k of
             Some r \<Rightarrow> Some r
           | None \<Rightarrow> if k = entityID then Some \<lparr>command = cmd, type = kind\<rparr> else None)"

text \<open>
  Modelled from the spec: \<^verbatim>\<open>haltThreads\<close>, which the header only declares (the
  destructor calls it). The spec: shutdown() "joins the session's worker thread, then
  shuts down the DeliveryChannel".
\<close>

definition haltThreads :: "('n, 'c, 'h) BDV_Server_Object \<Rightarrow> ('n, 'c, 'h) BDV_Server_Object outcome" where
  "haltThreads bdv =
     (let bdv' = bdv\<lparr>initT := join (initT bdv)\<rparr>
      in case cb bdv' of
           None \<Rightarrow> Returns bdv'
         | Some c \<Rightarrow>
             (case shutdown c of
                Returns c' \<Rightarrow> Returns (bdv'\<lparr>cb := Some c'\<rparr>)
              | Blocks c' \<Rightarrow> Blocks (bdv'\<lparr>cb := Some c'\<rparr>)))"

text \<open>
  Whether the session's channel reports terminated. A poll channel reports through its
  poll. A push channel has no poll and no state that \<^verbatim>\<open>shutdown\<close> could change: the one
  thing it reports is its liveness, \<^verbatim>\<open>isValid\<close>, and it would report terminated by not
  being live. A session without a channel reports nothing.
\<close>

fun reportsTerminated :: "'n Callback option \<Rightarrow> bool" where
  "reportsTerminated (Some (LongPoll_cb lp)) = (fst (respond lp) = Terminal)"
| "reportsTerminated (Some (WS_Callback bdvid)) =
     (\<not> fst (isValid (WS_Callback bdvid :: 'n Callback)))"
| "reportsTerminated None = False"

fun mutexFree :: "'n Callback option \<Rightarrow> bool" where
  "mutexFree (Some (LongPoll_cb lp)) = (\<not> mu lp)"
| "mutexFree (Some (WS_Callback bdvid)) = True"
| "mutexFree None = True"

section \<open>The registry: \<^verbatim>\<open>class Clients\<close>\<close>

text \<open>
  Modelled from the spec: the classes \<^verbatim>\<open>BlockingStack\<close> and \<^verbatim>\<open>TransactionalMap\<close>,
  declared in headers that are not in the sources. The spec: the queues are "FIFO,
  blocking on empty, terminable"; the registry is "a concurrent mapping session-ID to
  Session, supporting: point lookup, insert, remove". A blocking stack is a terminable
  queue like the one above. The registry \<^verbatim>\<open>BDVs_\<close> is kept as the list of its
  (identifier, session) entries, newest first, so that "at most one session per
  identifier" is a property to prove and not one of the type. The external hook
  \<^verbatim>\<open>shutdownCallback_\<close> shows as the number of times it was invoked. The field
  \<open>tornDown\<close> is not a member of the class: it keeps the sessions that were unregistered,
  oldest first, each as its teardown left it, so that a statement can speak of a session
  after it has left the map.
\<close>

type_synonym 'a BlockingStack = "'a TimedStack"

record ('n, 'c, 'h) Clients =
  BDVs :: "(string \<times> ('n, 'c, 'h) BDV_Server_Object) list"
  gcCommands :: "bool BlockingStack"
  shutdownCallback_calls :: nat
  run :: bool
  controlThreads :: "thread list"
  outerBDVNotifStack :: "'n BlockingStack"
  innerBDVNotifStack :: "(string \<times> 'n) BlockingStack"
  tornDown :: "(string \<times> ('n, 'c, 'h) BDV_Server_Object) list"

text \<open>
  Modelled from the spec: \<^verbatim>\<open>Clients::init\<close>, which the header only declares. The spec
  names three background threads (fan-out, delivery, garbage collection) and a run flag.
\<close>

definition Clients_init :: "('n, 'c, 'h) Clients" where
  "Clients_init =
     \<lparr>BDVs = [], gcCommands = empty_stack, shutdownCallback_calls = 0, run = True,
      controlThreads = [Running, Running, Running],
      outerBDVNotifStack = empty_stack, innerBDVNotifStack = empty_stack, tornDown = []\<rparr>"

text \<open>
  Modelled from the spec: \<^verbatim>\<open>Clients::registerBDV\<close>, which the header only declares. The
  spec: register "fails with DuplicateSession if the ID already exists; otherwise
  constructs and inserts a Session"; DuplicateSession is "rejected, no state change". The
  session is constructed by the parameter \<open>mk\<close> from the command and the identifier.
\<close>

definition registerBDV ::
  "('c \<Rightarrow> string \<Rightarrow> ('n, 'c, 'h) BDV_Server_Object) \<Rightarrow> ('n, 'c, 'h) Clients \<Rightarrow> 'c \<Rightarrow> string
     \<Rightarrow> (error + ('n, 'c, 'h) BDV_Server_Object) \<times> ('n, 'c, 'h) Clients" where
  "registerBDV mk clients cmd ident =
     (case map_of (BDVs clients) ident of
        Some bdv \<Rightarrow> (Inl DuplicateSession, clients)
      | None \<Rightarrow>
          (let bdv = mk cmd ident
           in (Inr bdv, clients\<lparr>BDVs := (ident, bdv) # BDVs clients\<rparr>)))"

text \<open>
  Modelled from the spec: \<^verbatim>\<open>Clients::unregisterBDV\<close> and \<^verbatim>\<open>unregisterAllBDVs\<close>, which
  the header only declares. The spec: unregistering is "removal from the map, then full
  Session teardown"; an absent identifier is "not fatal to the registry".
\<close>

definition unregisterBDV :: "('n, 'c, 'h) Clients \<Rightarrow> string \<Rightarrow> ('n, 'c, 'h) Clients outcome" where
  "unregisterBDV clients bdvId =
     (case map_of (BDVs clients) bdvId of
        None \<Rightarrow> Returns clients
      | Some bdv \<Rightarrow>
          (let clients' = clients\<lparr>BDVs := filter (\<lambda>e. fst e \<noteq> bdvId) (BDVs clients)\<rparr>
           in case haltThreads bdv of
                Returns bdv' \<Rightarrow>
                  Returns (clients'\<lparr>tornDown := tornDown clients' @ [(bdvId, bdv')]\<rparr>)
              | Blocks bdv' \<Rightarrow>
                  Blocks (clients'\<lparr>tornDown := tornDown clients' @ [(bdvId, bdv')]\<rparr>)))"

fun unregisterEach :: "string list \<Rightarrow> ('n, 'c, 'h) Clients \<Rightarrow> ('n, 'c, 'h) Clients outcome" where
  "unregisterEach [] clients = Returns clients"
| "unregisterEach (bdvId # ids) clients = then_do (unregisterBDV clients bdvId) (unregisterEach ids)"

definition unregisterAllBDVs :: "('n, 'c, 'h) Clients \<Rightarrow> ('n, 'c, 'h) Clients outcome" where
  "unregisterAllBDVs clients = unregisterEach (map fst (BDVs clients)) clients"

text \<open>
  Modelled from the spec: \<^verbatim>\<open>Clients::shutdown\<close>, which the header only declares. The
  spec: shutdownAll() "clears the run flag, terminates all blocking queues (unblocking
  every background loop), joins all background threads, then unregisters every remaining
  session (ordered teardown per 4.2), and finally invokes an external shutdown hook."
\<close>

definition shutdown_Clients :: "('n, 'c, 'h) Clients \<Rightarrow> ('n, 'c, 'h) Clients outcome" where
  "shutdown_Clients clients =
     (let c1 = clients\<lparr>run := False\<rparr>;
          c2 = c1\<lparr>gcCommands := terminate (gcCommands c1),
                  outerBDVNotifStack := terminate (outerBDVNotifStack c1),
                  innerBDVNotifStack := terminate (innerBDVNotifStack c1)\<rparr>;
          c3 = c2\<lparr>controlThreads := map join (controlThreads c2)\<rparr>
      in then_do (unregisterAllBDVs c3)
           (\<lambda>c4. Returns (c4\<lparr>shutdownCallback_calls := Suc (shutdownCallback_calls c4)\<rparr>)))"

text \<open>The calls that reach the registry's map, for the statements about every history.\<close>

datatype 'c Clients_call = Call_registerBDV 'c string | Call_unregisterBDV string

fun Clients_step ::
  "('c \<Rightarrow> string \<Rightarrow> ('n, 'c, 'h) BDV_Server_Object) \<Rightarrow> ('n, 'c, 'h) Clients \<Rightarrow> 'c Clients_call
     \<Rightarrow> ('n, 'c, 'h) Clients" where
  "Clients_step mk clients (Call_registerBDV cmd ident) = snd (registerBDV mk clients cmd ident)"
| "Clients_step mk clients (Call_unregisterBDV ident) = outcome_state (unregisterBDV clients ident)"

text \<open>A channel fresh from its constructor, and one whose counter stands at 5.\<close>

definition fresh_channel :: "nat LongPoll" where
  "fresh_channel = LongPoll_ctor (\<lambda>_. 1)"

definition expired_channel :: "nat LongPoll" where
  "expired_channel = fresh_channel\<lparr>count := 5\<rparr>"

text \<open>A history without a reset: a delivery, checks with the mutex held and free, a shutdown.\<close>

definition expired_history :: "nat counting_call list" where
  "expired_history =
     [Count_callback 10, Count_lock, Count_isValid, Count_unlock, Count_isValid, Count_shutdown]"

text \<open>A channel with two notifications queued, in this order.\<close>

definition queued_channel :: "nat LongPoll" where
  "queued_channel = foldl callback_LongPoll fresh_channel [10, 20]"

text \<open>A session with a push channel, and one with a poll channel whose counter stands at 5.\<close>

definition push_session :: "(nat, nat, nat) BDV_Server_Object" where
  "push_session =
     \<lparr>initT = Running, cb = Some (WS_Callback 7), bdvID = ''w'', wltRegMap = Map.empty,
      isReadyPromise = True, watchSet = Map.empty\<rparr>"

definition poll_session :: "(nat, nat, nat) BDV_Server_Object" where
  "poll_session = push_session\<lparr>cb := Some (LongPoll_cb expired_channel), bdvID := ''p''\<rparr>"

text \<open>A registry that holds these two sessions, and what its shutdown leaves.\<close>

definition two_clients :: "(nat, nat, nat) Clients" where
  "two_clients = Clients_init\<lparr>BDVs := [(''p'', poll_session), (''w'', push_session)]\<rparr>"

definition poll_session_down :: "(nat, nat, nat) BDV_Server_Object" where
  "poll_session_down =
     poll_session
       \<lparr>initT := Joined,
        cb := Some (LongPoll_cb
                (expired_channel\<lparr>notificationStack := \<lparr>items = [], terminated = True\<rparr>\<rparr>))\<rparr>"

definition push_session_down :: "(nat, nat, nat) BDV_Server_Object" where
  "push_session_down = push_session\<lparr>initT := Joined\<rparr>"

definition two_clients_down :: "(nat, nat, nat) Clients" where
  "two_clients_down =
     \<lparr>BDVs = [], gcCommands = \<lparr>items = [], terminated = True\<rparr>, shutdownCallback_calls = 1,
      run = False, controlThreads = [Joined, Joined, Joined],
      outerBDVNotifStack = \<lparr>items = [], terminated = True\<rparr>,
      innerBDVNotifStack = \<lparr>items = [], terminated = True\<rparr>,
      tornDown = [(''p'', poll_session_down), (''w'', push_session_down)]\<rparr>"

text \<open>A session constructor for the registry, and three registrations of one session.\<close>

definition mk_session :: "nat \<Rightarrow> string \<Rightarrow> (nat, nat, nat) BDV_Server_Object" where
  "mk_session cmd ident = BDV_Server_Object_ctor ident"

definition three_regs :: "(string \<times> WalletType \<times> nat) list" where
  "three_regs = [(''w1'', TypeWallet, 1), (''w2'', TypeLockbox, 2), (''w1'', TypeLockbox, 3)]"

section \<open>The poll channel's expiry counter\<close>

lemma isValid_free:
  "\<not> mu lp \<Longrightarrow>
     isValid_LongPoll lp = (count lp + 1 < CALLBACK_EXPIRE_COUNT, lp\<lparr>count := count lp + 1\<rparr>)"
  by (auto simp add: isValid_LongPoll_def Let_def not_le)

lemma isValid_repeat_numeral:
  "isValid_repeat (numeral k) lp =
     (let (r, lp') = isValid_LongPoll lp; (rs, lp'') = isValid_repeat (pred_numeral k) lp'
      in (r # rs, lp''))"
  by (simp add: numeral_eq_Suc)

lemma unat_count_succ:
  "unat (c :: 32 word) + 1 < 2 ^ 32 \<Longrightarrow> unat (c + 1) = unat c + 1"
  by (simp add: unat_word_ariths)

text \<open>
  From 4 on, every check with the mutex free answers \<open>False\<close>, as long as the 32-bit
  counter does not wrap around.
\<close>

lemma expired_stays:
  "\<not> mu lp \<Longrightarrow> 4 \<le> unat (count lp) \<Longrightarrow> unat (count lp) + n < 2 ^ 32 \<Longrightarrow>
     fst (isValid_repeat n lp) = replicate n False \<and>
     count (snd (isValid_repeat n lp)) = count lp + of_nat n"
proof (induction n arbitrary: lp)
  case 0
  then show ?case by simp
next
  case (Suc n)
  let ?lp' = "lp\<lparr>count := count lp + 1\<rparr>"
  have u: "unat (count lp + 1) = unat (count lp) + 1"
    using Suc.prems(3) by (intro unat_count_succ) simp
  have ge: "\<not> count lp + 1 < CALLBACK_EXPIRE_COUNT"
    using Suc.prems(2) u by (simp add: CALLBACK_EXPIRE_COUNT_def word_less_nat_alt)
  have step: "isValid_LongPoll lp = (False, ?lp')"
    using Suc.prems(1) ge by (simp add: isValid_free)
  have ih: "fst (isValid_repeat n ?lp') = replicate n False \<and>
     count (snd (isValid_repeat n ?lp')) = count ?lp' + of_nat n"
    using Suc.prems u by (intro Suc.IH) simp_all
  show ?case using step ih by (simp add: split_beta)
qed

text \<open>
  Without a reset the counter never goes down, as long as it does not wrap around: each
  call leaves it or adds 1.
\<close>

lemma counting_step_count:
  "unat (count lp) + 1 < 2 ^ 32 \<Longrightarrow>
     unat (count lp) \<le> unat (count (counting_step lp c)) \<and>
     unat (count (counting_step lp c)) \<le> unat (count lp) + 1"
  by (cases c)
    (simp_all add: callback_LongPoll_def isValid_LongPoll_def shutdown_LongPoll_def Let_def
      unat_count_succ)

lemma counting_steps_count:
  "unat (count lp) + length calls < 2 ^ 32 \<Longrightarrow>
     unat (count lp) \<le> unat (count (foldl counting_step lp calls)) \<and>
     unat (count (foldl counting_step lp calls)) \<le> unat (count lp) + length calls"
proof (induction calls arbitrary: lp)
  case Nil
  then show ?case by simp
next
  case (Cons c calls)
  have one: "unat (count lp) \<le> unat (count (counting_step lp c)) \<and>
     unat (count (counting_step lp c)) \<le> unat (count lp) + 1"
    using Cons.prems by (intro counting_step_count) simp
  then have "unat (count (counting_step lp c)) + length calls < 2 ^ 32"
    using Cons.prems by simp
  then have "unat (count (counting_step lp c))
        \<le> unat (count (foldl counting_step (counting_step lp c) calls)) \<and>
     unat (count (foldl counting_step (counting_step lp c) calls))
        \<le> unat (count (counting_step lp c)) + length calls"
    by (rule Cons.IH)
  with one show ?case by simp
qed

lemma expired_after_history:
  assumes "4 \<le> unat (count lp)" and "unat (count lp) + length calls + 1 < 2 ^ 32"
    and "\<not> mu (foldl counting_step lp calls)"
  shows "\<not> fst (isValid_LongPoll (foldl counting_step lp calls))"
proof -
  let ?lp = "foldl counting_step lp calls"
  have b: "unat (count lp) \<le> unat (count ?lp) \<and> unat (count ?lp) \<le> unat (count lp) + length calls"
    using assms(2) by (intro counting_steps_count) simp
  then have "unat (count ?lp + 1) = unat (count ?lp) + 1"
    using assms(2) by (intro unat_count_succ) simp
  then have "\<not> count ?lp + 1 < CALLBACK_EXPIRE_COUNT"
    using assms(1) b by (simp add: CALLBACK_EXPIRE_COUNT_def word_less_nat_alt)
  then show ?thesis using assms(3) by (simp add: isValid_free)
qed

text \<open>
  Claim C1, as the header has it. The expiry counter of a poll channel starts at 0. A
  liveness check that finds the mutex free (no response in progress) adds exactly 1 to
  the counter, modulo \<open>2 ^ 32\<close>, and answers whether the new value is below the threshold
  5. \<^verbatim>\<open>resetCounter\<close> puts the counter back to 0. Once the counter has reached the
  threshold, every check that finds the mutex free answers \<open>False\<close> for as long as the
  counter is not reset (and has not wrapped around), whatever deliveries, checks and
  shutdowns were made in between; after a reset the next such check answers \<open>True\<close>
  again.
\<close>

theorem LongPoll_expiry_counter:
  "count (LongPoll_ctor f :: 'n LongPoll) = 0 \<and>
   (\<not> mu lp \<longrightarrow>
      count (snd (isValid_LongPoll lp)) = count lp + 1 \<and>
      fst (isValid_LongPoll lp) = (count lp + 1 < CALLBACK_EXPIRE_COUNT)) \<and>
   count (resetCounter_LongPoll lp) = 0 \<and>
   (\<not> mu lp \<and> 4 \<le> unat (count lp) \<and> unat (count lp) + n < 2 ^ 32 \<longrightarrow>
      fst (isValid_repeat n lp) = replicate n False) \<and>
   (4 \<le> unat (count lp) \<and> unat (count lp) + length calls + 1 < 2 ^ 32 \<and>
    \<not> mu (foldl counting_step lp calls) \<longrightarrow>
      \<not> fst (isValid_LongPoll (foldl counting_step lp calls))) \<and>
   (\<not> mu lp \<longrightarrow> fst (isValid_LongPoll (resetCounter_LongPoll lp)))"
  using expired_stays [of lp n] expired_after_history [of lp calls]
  by (simp add: isValid_free LongPoll_ctor_def resetCounter_LongPoll_def CALLBACK_EXPIRE_COUNT_def)

theorem LongPoll_expiry_counter_witness:
  "count (LongPoll_ctor (\<lambda>_. 1) :: nat LongPoll) = 0 \<and>
   \<not> mu expired_channel \<and> 4 \<le> unat (count expired_channel) \<and>
   unat (count expired_channel) + 3 < (2::nat) ^ 32 \<and>
   count (snd (isValid_LongPoll expired_channel)) = 6 \<and>
   fst (isValid_LongPoll expired_channel) = False \<and>
   count (resetCounter_LongPoll expired_channel) = 0 \<and>
   fst (isValid_repeat 3 expired_channel) = [False, False, False] \<and>
   unat (count expired_channel) + length expired_history + 1 < (2::nat) ^ 32 \<and>
   \<not> mu (foldl counting_step expired_channel expired_history) \<and>
   \<not> fst (isValid_LongPoll (foldl counting_step expired_channel expired_history)) \<and>
   fst (isValid_LongPoll (resetCounter_LongPoll expired_channel))"
proof -
  have l: "length expired_history = 6"
    by (simp add: expired_history_def)
  have f: "mu (foldl counting_step expired_channel expired_history) = False"
    by (simp add: expired_history_def expired_channel_def fresh_channel_def LongPoll_ctor_def
        callback_LongPoll_def isValid_LongPoll_def shutdown_LongPoll_def terminate_def Let_def)
  have m: "mu expired_channel = False"
    by (simp add: expired_channel_def fresh_channel_def LongPoll_ctor_def)
  have c: "count expired_channel = 5"
    by (simp add: expired_channel_def)
  have r: "replicate 3 False = [False, False, False]"
    by (simp add: numeral_3_eq_3)
  show ?thesis
    using LongPoll_expiry_counter [of "\<lambda>_. 1" expired_channel 3 expired_history]
    by (simp add: m c r l f CALLBACK_EXPIRE_COUNT_def)
qed

text \<open>
  Claim C1 as stated says that the answer \<open>False\<close> is permanent, also across a reset.
  On a fresh channel the fifth check brings the counter to 5 and answers \<open>False\<close>, and so
  does a sixth; after \<^verbatim>\<open>resetCounter\<close> the next check answers \<open>True\<close>.
\<close>

theorem expiry_not_permanent_counterexample:
  "count (snd (isValid_repeat 5 fresh_channel)) = 5 \<and>
   fst (isValid_repeat 5 fresh_channel) = [True, True, True, True, False] \<and>
   \<not> fst (isValid_LongPoll (snd (isValid_repeat 5 fresh_channel))) \<and>
   fst (isValid_LongPoll (resetCounter_LongPoll (snd (isValid_repeat 5 fresh_channel))))"
  by (simp add: fresh_channel_def LongPoll_ctor_def isValid_LongPoll_def
      resetCounter_LongPoll_def CALLBACK_EXPIRE_COUNT_def isValid_repeat_numeral Let_def
      word_le_nat_alt)

text \<open>
  Claim C3. A liveness check made while the mutex is held (a response is in progress)
  answers \<open>True\<close> and leaves the channel, its expiry counter included, as it was.
\<close>

theorem isValid_during_respond:
  "mu lp \<Longrightarrow> isValid_LongPoll lp = (True, lp)"
  by (simp add: isValid_LongPoll_def)

theorem isValid_during_respond_witness:
  "mu (expired_channel\<lparr>mu := True\<rparr>) \<and>
   isValid_LongPoll (expired_channel\<lparr>mu := True\<rparr>) = (True, expired_channel\<lparr>mu := True\<rparr>)"
  using isValid_during_respond [of "expired_channel\<lparr>mu := True\<rparr>"]
  by simp

section \<open>Shutting a channel down\<close>

text \<open>
  The order inside \<^verbatim>\<open>LongPoll::shutdown\<close>: the queue is terminated whether or not the
  mutex can be taken, and the call returns only from a state in which the mutex is free.
\<close>

lemma shutdown_LongPoll_order:
  "terminated (notificationStack (outcome_state (shutdown_LongPoll lp))) \<and>
   (shutdown_LongPoll lp = Returns lp' \<longrightarrow> \<not> mu lp')"
  by (auto simp add: shutdown_LongPoll_def terminate_def Let_def)

text \<open>
  Claim C9. For both kinds of channel, a second call of \<^verbatim>\<open>shutdown\<close> changes nothing:
  two calls leave the channel as one call does. The same holds when the second call is
  the one the destructor of a poll channel makes.
\<close>

theorem shutdown_idempotent:
  "shutdown_twice ch = shutdown ch \<and>
   outcome_state (shutdown (outcome_state (shutdown ch))) = outcome_state (shutdown ch) \<and>
   then_do (shutdown_LongPoll lp) LongPoll_dtor = shutdown_LongPoll lp"
  by (cases ch)
    (simp_all add: shutdown_twice_def shutdown_LongPoll_def LongPoll_dtor_def terminate_def Let_def)

theorem shutdown_idempotent_witness:
  "shutdown_twice (LongPoll_cb fresh_channel) = shutdown (LongPoll_cb fresh_channel) \<and>
   shutdown (LongPoll_cb fresh_channel) =
     Returns (LongPoll_cb (fresh_channel\<lparr>notificationStack := \<lparr>items = [], terminated = True\<rparr>\<rparr>)) \<and>
   then_do (shutdown_LongPoll fresh_channel) LongPoll_dtor = shutdown_LongPoll fresh_channel"
  using shutdown_idempotent [of "LongPoll_cb fresh_channel" fresh_channel]
  by (simp add: shutdown_LongPoll_def terminate_def fresh_channel_def LongPoll_ctor_def
      empty_stack_def)

section \<open>Resetting the counter through the session\<close>

text \<open>
  Claim C10. \<^verbatim>\<open>BDV_Server_Object::resetCounter\<close> does nothing when the session's channel
  is not a poll channel (a push channel, or no channel at all): the session is left as it
  was, and no expiry counter is touched. On a poll channel it resets that channel's
  counter and nothing else. The function has no failing branch.
\<close>

theorem resetCounter_no_LongPoll:
  "((cb bdv = None \<or> (\<exists>bdvid. cb bdv = Some (WS_Callback bdvid))) \<longrightarrow> resetCounter bdv = bdv) \<and>
   (cb bdv = Some (LongPoll_cb lp) \<longrightarrow>
      resetCounter bdv = bdv\<lparr>cb := Some (LongPoll_cb (lp\<lparr>count := 0\<rparr>))\<rparr>)"
  by (auto simp add: resetCounter_def resetCounter_LongPoll_def)

theorem resetCounter_no_LongPoll_witness:
  "cb push_session = Some (WS_Callback 7) \<and>
   resetCounter push_session = push_session \<and>
   cb poll_session = Some (LongPoll_cb expired_channel) \<and>
   resetCounter poll_session =
     poll_session\<lparr>cb := Some (LongPoll_cb (expired_channel\<lparr>count := 0\<rparr>))\<rparr>"
proof -
  have w: "cb push_session = Some (WS_Callback 7)"
    by (simp add: push_session_def)
  have p: "cb poll_session = Some (LongPoll_cb expired_channel)"
    by (simp add: poll_session_def)
  show ?thesis
    using resetCounter_no_LongPoll [of push_session expired_channel]
      resetCounter_no_LongPoll [of poll_session expired_channel]
    by (simp add: w p)
qed

section \<open>Answering a poll\<close>

lemma terminated_step:
  "terminated (notificationStack lp) \<Longrightarrow> terminated (notificationStack (LongPoll_step lp c))"
  by (cases c)
    (simp_all add: callback_LongPoll_def push_back_def isValid_LongPoll_def Let_def
      resetCounter_LongPoll_def respond_def shutdown_LongPoll_def terminate_def)

lemma terminated_steps:
  "terminated (notificationStack lp) \<Longrightarrow>
     terminated (notificationStack (foldl LongPoll_step lp calls))"
  by (induction calls arbitrary: lp) (simp_all add: terminated_step)

lemma callbacks_append:
  "items (notificationStack (foldl callback_LongPoll lp ns)) = items (notificationStack lp) @ ns"
  by (induction ns arbitrary: lp) (simp_all add: callback_LongPoll_def push_back_def)

text \<open>
  Claim C4. A poll that finds notifications queued on a queue that is not terminated
  returns all of them as one batch, in the order in which \<^verbatim>\<open>callback\<close> queued them,
  leaves the queue empty and the expiry counter at 0. A poll on a terminated queue returns
  the terminal result and changes nothing, and so does every poll after any further calls
  on that channel; \<^verbatim>\<open>shutdown\<close> is what terminates the queue.
\<close>

theorem respond_batch_or_terminal:
  "(\<not> terminated (notificationStack lp) \<and> items (notificationStack lp) \<noteq> [] \<longrightarrow>
      respond lp =
        (Batch (items (notificationStack lp)),
         lp\<lparr>notificationStack := (notificationStack lp)\<lparr>items := []\<rparr>, count := 0\<rparr>)) \<and>
   items (notificationStack (foldl callback_LongPoll lp ns)) = items (notificationStack lp) @ ns \<and>
   (terminated (notificationStack lp) \<longrightarrow>
      respond lp = (Terminal, lp) \<and>
      fst (respond (foldl LongPoll_step lp calls)) = Terminal) \<and>
   fst (respond (outcome_state (shutdown_LongPoll lp))) = Terminal"
proof -
  have "terminated (notificationStack lp) \<Longrightarrow>
      fst (respond (foldl LongPoll_step lp calls)) = Terminal"
    using terminated_steps [of lp calls] by (simp add: respond_def)
  then show ?thesis
    by (simp add: respond_def pop_all_def respond_inner_def resetCounter_LongPoll_def
        callbacks_append shutdown_LongPoll_def terminate_def Let_def)
qed

theorem respond_batch_or_terminal_witness:
  "\<not> terminated (notificationStack queued_channel) \<and>
   items (notificationStack queued_channel) = [10, 20] \<and>
   fst (respond queued_channel) = Batch [10, 20] \<and>
   items (notificationStack (snd (respond queued_channel))) = [] \<and>
   count (snd (respond queued_channel)) = 0 \<and>
   terminated (notificationStack (outcome_state (shutdown_LongPoll queued_channel))) \<and>
   fst (respond (outcome_state (shutdown_LongPoll queued_channel))) = Terminal \<and>
   fst (respond (foldl LongPoll_step (outcome_state (shutdown_LongPoll queued_channel))
          [Call_callback 30, Call_resetCounter, Call_respond, Env_unlock])) = Terminal"
proof -
  have q: "items (notificationStack queued_channel) = [10, 20]"
    by (simp add: queued_channel_def fresh_channel_def LongPoll_ctor_def empty_stack_def
        callback_LongPoll_def push_back_def)
  have t: "terminated (notificationStack queued_channel) = False"
    by (simp add: queued_channel_def fresh_channel_def LongPoll_ctor_def empty_stack_def
        callback_LongPoll_def push_back_def)
  have d: "terminated (notificationStack (outcome_state (shutdown_LongPoll queued_channel)))"
    by (simp add: shutdown_LongPoll_def terminate_def Let_def)
  show ?thesis
    using respond_batch_or_terminal [of queued_channel "[]" "[]"]
      respond_batch_or_terminal [of "outcome_state (shutdown_LongPoll queued_channel)" "[]"
        "[Call_callback 30, Call_resetCounter, Call_respond, Env_unlock]"]
    by (simp add: q t d)
qed

section \<open>Registrations buffered before activation\<close>

lemma registerAll_buffer:
  "\<not> isReadyPromise bdv \<Longrightarrow>
     registerAll resolve bdv regs =
       bdv\<lparr>wltRegMap := (\<lambda>k. case lastReg regs k of Some r \<Rightarrow> Some r | None \<Rightarrow> wltRegMap bdv k)\<rparr>"
proof (induction regs arbitrary: bdv)
  case Nil
  then show ?case by simp
next
  case (Cons reg regs)
  obtain entityID kind cmd where reg: "reg = (entityID, kind, cmd)"
    by (cases reg) auto
  let ?bdv' = "registerWatch resolve bdv entityID kind cmd"
  have nr: "\<not> isReadyPromise ?bdv'"
    using Cons.prems by (simp add: registerWatch_def Let_def)
  have "(\<lambda>k. case lastReg regs k of Some r \<Rightarrow> Some r | None \<Rightarrow> wltRegMap ?bdv' k) =
        (\<lambda>k. case lastReg (reg # regs) k of Some r \<Rightarrow> Some r | None \<Rightarrow> wltRegMap bdv k)"
    using Cons.prems
    by (auto simp add: reg registerWatch_def Let_def fun_eq_iff split: option.splits)
  then show ?case
    using Cons.IH [OF nr] Cons.prems by (simp add: reg registerWatch_def Let_def)
qed

lemma lastReg_None: "(lastReg regs k = None) = (k \<notin> fst ` set regs)"
  by (induction regs) (auto split: option.splits)

lemma dom_lastReg: "dom (lastReg regs) = fst ` set regs"
  using lastReg_None [of regs] by (auto simp add: dom_def)

lemma lastReg_append:
  "lastReg (xs @ ys) k = (case lastReg ys k of Some r \<Rightarrow> Some r | None \<Rightarrow> lastReg xs k)"
  by (induction xs) (auto split: option.splits)

text \<open>
  Claim C6. Activating a new session after any list of registrations succeeds and leaves
  the session ready, its buffer empty, and in its watch-set exactly the entities that were
  registered, each resolved once: the identifiers of the watch-set are the registered
  identifiers, none lost and none added. Where an identifier was registered more than
  once, the watch-set holds the resolution of the last registration for it.
\<close>

theorem activate_resolves_buffer:
  fixes resolve :: "'c walletRegStruct \<Rightarrow> 'h"
  shows
  "activate resolve
     (registerAll resolve (BDV_Server_Object_ctor ident :: ('n, 'c, 'h) BDV_Server_Object) regs) =
     Inr ((BDV_Server_Object_ctor ident)
            \<lparr>watchSet := (\<lambda>k. map_option resolve (lastReg regs k)),
             isReadyPromise := True, initT := Running\<rparr>) \<and>
   dom (\<lambda>k. map_option resolve (lastReg regs k)) = fst ` set regs \<and>
   (k \<notin> fst ` set later \<longrightarrow>
      lastReg (earlier @ (k, kind, cmd) # later) k = Some \<lparr>command = cmd, type = kind\<rparr>)"
proof -
  have nr: "\<not> isReadyPromise (BDV_Server_Object_ctor ident :: ('n, 'c, 'h) BDV_Server_Object)"
    by (simp add: BDV_Server_Object_ctor_def)
  have a: "activate resolve
     (registerAll resolve (BDV_Server_Object_ctor ident :: ('n, 'c, 'h) BDV_Server_Object) regs) =
     Inr ((BDV_Server_Object_ctor ident)
            \<lparr>watchSet := (\<lambda>k. map_option resolve (lastReg regs k)),
             isReadyPromise := True, initT := Running\<rparr>)"
    unfolding registerAll_buffer [OF nr]
    by (simp add: activate_def populateWallets_def BDV_Server_Object_ctor_def map_add_def
        fun_eq_iff split: option.splits)
  have d: "dom (\<lambda>k. map_option resolve (lastReg regs k)) = fst ` set regs"
    using dom_lastReg [of regs] by (auto simp add: dom_def)
  have "lastReg later k = None" if "k \<notin> fst ` set later"
    using that by (simp add: lastReg_None)
  then have l: "k \<notin> fst ` set later \<longrightarrow>
      lastReg (earlier @ (k, kind, cmd) # later) k = Some \<lparr>command = cmd, type = kind\<rparr>"
    by (simp add: lastReg_append)
  show ?thesis using a d l by blast
qed

theorem activate_resolves_buffer_witness:
  "activate command
     (registerAll command (BDV_Server_Object_ctor ''s'' :: (nat, nat, nat) BDV_Server_Object)
        three_regs) =
     Inr ((BDV_Server_Object_ctor ''s'')
            \<lparr>watchSet := (\<lambda>k. map_option command (lastReg three_regs k)),
             isReadyPromise := True, initT := Running\<rparr>) \<and>
   map_option command (lastReg three_regs ''w1'') = Some 3 \<and>
   map_option command (lastReg three_regs ''w2'') = Some 2 \<and>
   map_option command (lastReg three_regs ''w3'') = None \<and>
   ''w1'' \<notin> fst ` set ([] :: (string \<times> WalletType \<times> nat) list) \<and>
   lastReg ([(''w1'', TypeWallet, 1), (''w2'', TypeLockbox, 2)] @ (''w1'', TypeLockbox, 3) # []) ''w1'' =
     Some \<lparr>command = 3, type = TypeLockbox\<rparr>"
proof -
  have e: "lastReg three_regs ''w1'' = Some \<lparr>command = 3, type = TypeLockbox\<rparr> \<and>
           lastReg three_regs ''w2'' = Some \<lparr>command = 2, type = TypeLockbox\<rparr> \<and>
           lastReg three_regs ''w3'' = None"
    by (simp add: three_regs_def)
  show ?thesis
    using activate_resolves_buffer [of command "''s''" three_regs "''w1''" "[]"
        "[(''w1'', TypeWallet, 1), (''w2'', TypeLockbox, 2)]" TypeLockbox 3,
        where ?'n = nat]
    by (simp add: e)
qed

section \<open>The registry of sessions\<close>

lemma registerBDV_distinct:
  "distinct (map fst (BDVs c)) \<Longrightarrow> distinct (map fst (BDVs (snd (registerBDV mk c cmd ident))))"
  by (auto simp add: registerBDV_def Let_def map_of_eq_None_iff split: option.splits)

lemma unregisterBDV_distinct:
  "distinct (map fst (BDVs c)) \<Longrightarrow>
     distinct (map fst (BDVs (outcome_state (unregisterBDV c ident))))"
  by (auto simp add: unregisterBDV_def Let_def distinct_map_filter
      split: option.splits outcome.splits)

lemma Clients_step_distinct:
  "distinct (map fst (BDVs c)) \<Longrightarrow> distinct (map fst (BDVs (Clients_step mk c call)))"
  by (cases call) (simp_all add: registerBDV_distinct unregisterBDV_distinct)

lemma Clients_steps_distinct:
  "distinct (map fst (BDVs c)) \<Longrightarrow>
     distinct (map fst (BDVs (foldl (Clients_step mk) c calls)))"
  by (induction calls arbitrary: c) (simp_all add: Clients_step_distinct)

text \<open>
  Claim C8. Registering an identifier that the registry already holds fails with
  \<open>DuplicateSession\<close> and leaves the registry as it was. After any history of
  registrations and unregistrations on a new registry, no identifier occurs twice among
  the registry's entries.
\<close>

theorem registerBDV_duplicate:
  fixes mk :: "'c \<Rightarrow> string \<Rightarrow> ('n, 'c, 'h) BDV_Server_Object"
  shows
  "(map_of (BDVs clients) ident \<noteq> None \<longrightarrow>
      registerBDV mk clients cmd ident = (Inl DuplicateSession, clients)) \<and>
   distinct (map fst (BDVs (foldl (Clients_step mk) Clients_init calls)))"
proof -
  have "distinct (map fst (BDVs (Clients_init :: ('n, 'c, 'h) Clients)))"
    by (simp add: Clients_init_def)
  then show ?thesis
    using Clients_steps_distinct [of Clients_init mk calls]
    by (auto simp add: registerBDV_def)
qed

theorem registerBDV_duplicate_witness:
  "map_of (BDVs two_clients) ''p'' \<noteq> None \<and>
   registerBDV mk_session two_clients 4 ''p'' = (Inl DuplicateSession, two_clients) \<and>
   distinct (map fst (BDVs (foldl (Clients_step mk_session) Clients_init
      [Call_registerBDV 0 ''a'', Call_registerBDV 1 ''a'', Call_unregisterBDV ''a'',
       Call_registerBDV 2 ''a'', Call_registerBDV 3 ''b''])))"
proof -
  have h: "map_of (BDVs two_clients) ''p'' \<noteq> None"
    by (simp add: two_clients_def)
  show ?thesis
    using registerBDV_duplicate [of two_clients "''p''" mk_session 4
        "[Call_registerBDV 0 ''a'', Call_registerBDV 1 ''a'', Call_unregisterBDV ''a'',
          Call_registerBDV 2 ''a'', Call_registerBDV 3 ''b'']"]
    by (simp add: h)
qed

section \<open>Shutting the registry down\<close>

lemma join_not_Running: "join t \<noteq> Running"
  by (cases t) simp_all

text \<open>
  What the teardown of one session leaves when it returns: the worker joined; a poll
  channel with its queue terminated and its mutex free, so that a poll reports terminated;
  a push channel as it was.
\<close>

lemma haltThreads_post:
  assumes "haltThreads b = Returns b'"
  shows "initT b' = join (initT b) \<and> initT b' \<noteq> Running \<and>
     (case cb b of
        None \<Rightarrow> cb b' = None
      | Some (LongPoll_cb lp) \<Rightarrow>
          cb b' = Some (LongPoll_cb (lp\<lparr>notificationStack := terminate (notificationStack lp)\<rparr>)) \<and>
          reportsTerminated (cb b') \<and> mutexFree (cb b')
      | Some (WS_Callback bdvid) \<Rightarrow> cb b' = Some (WS_Callback bdvid))"
proof (cases "cb b")
  case None
  with assms show ?thesis
    by (auto simp add: haltThreads_def Let_def join_not_Running)
next
  case (Some ch)
  show ?thesis
  proof (cases ch)
    case (LongPoll_cb lp)
    with Some assms show ?thesis
      by (auto simp add: haltThreads_def Let_def join_not_Running shutdown_LongPoll_def
          terminate_def respond_def split: if_splits)
  next
    case (WS_Callback bdvid)
    with Some assms show ?thesis
      by (auto simp add: haltThreads_def Let_def join_not_Running)
  qed
qed

lemma shutdown_total:
  "mutexFree (Some ch) \<Longrightarrow> \<exists>ch'. shutdown ch = Returns ch'"
  by (cases ch) (simp_all add: shutdown_LongPoll_def Let_def)

lemma haltThreads_total:
  assumes "mutexFree (cb bdv)"
  shows "\<exists>bdv'. haltThreads bdv = Returns bdv'"
proof (cases "cb bdv")
  case None
  then show ?thesis by (simp add: haltThreads_def Let_def)
next
  case (Some ch)
  with assms obtain ch' where "shutdown ch = Returns ch'"
    using shutdown_total [of ch] by auto
  with Some show ?thesis by (simp add: haltThreads_def Let_def)
qed

lemma filter_other_keys:
  "k \<notin> fst ` set rest \<Longrightarrow> filter (\<lambda>e. fst e \<noteq> k) rest = rest"
  by (induction rest) auto

lemma unregisterBDV_head:
  assumes "BDVs c = (k, b) # rest" and "k \<notin> fst ` set rest"
  shows "unregisterBDV c k =
           (case haltThreads b of
              Returns b' \<Rightarrow> Returns (c\<lparr>BDVs := rest, tornDown := tornDown c @ [(k, b')]\<rparr>)
            | Blocks b' \<Rightarrow> Blocks (c\<lparr>BDVs := rest, tornDown := tornDown c @ [(k, b')]\<rparr>))"
  using assms
  by (cases "haltThreads b") (simp_all add: unregisterBDV_def Let_def filter_other_keys)

text \<open>
  When the loop over the registry's entries returns, every entry has left the map, and the
  teardown of every session has returned and is recorded, in the order of the entries.
\<close>

lemma unregisterEach_all:
  "BDVs c = xs \<Longrightarrow> distinct (map fst xs) \<Longrightarrow> unregisterEach (map fst xs) c = Returns c' \<Longrightarrow>
     c' = c\<lparr>BDVs := [],
            tornDown := tornDown c @ map (\<lambda>e. (fst e, outcome_state (haltThreads (snd e)))) xs\<rparr> \<and>
     list_all (\<lambda>e. \<exists>b'. haltThreads (snd e) = Returns b') xs"
proof (induction xs arbitrary: c)
  case Nil
  then show ?case by simp
next
  case (Cons e rest)
  obtain k b where e: "e = (k, b)" by (cases e) auto
  have fresh: "k \<notin> fst ` set rest"
    using Cons.prems(2) by (simp add: e)
  have head: "unregisterBDV c k =
           (case haltThreads b of
              Returns b' \<Rightarrow> Returns (c\<lparr>BDVs := rest, tornDown := tornDown c @ [(k, b')]\<rparr>)
            | Blocks b' \<Rightarrow> Blocks (c\<lparr>BDVs := rest, tornDown := tornDown c @ [(k, b')]\<rparr>))"
    using Cons.prems(1) fresh by (intro unregisterBDV_head) (simp add: e)
  obtain b' where halt: "haltThreads b = Returns b'"
    using Cons.prems(3) head by (cases "haltThreads b") (simp_all add: e)
  let ?c1 = "c\<lparr>BDVs := rest, tornDown := tornDown c @ [(k, b')]\<rparr>"
  have rest: "unregisterEach (map fst rest) ?c1 = Returns c'"
    using Cons.prems(3) head halt by (simp add: e)
  have "c' = ?c1\<lparr>BDVs := [],
            tornDown := tornDown ?c1 @ map (\<lambda>e. (fst e, outcome_state (haltThreads (snd e)))) rest\<rparr> \<and>
     list_all (\<lambda>e. \<exists>b'. haltThreads (snd e) = Returns b') rest"
    using Cons.prems(2) rest by (intro Cons.IH) simp_all
  then show ?case
    using halt by (simp add: e)
qed

text \<open>The loop returns when no session's channel has its mutex held.\<close>

lemma unregisterEach_total:
  "BDVs c = xs \<Longrightarrow> distinct (map fst xs) \<Longrightarrow> list_all (\<lambda>e. mutexFree (cb (snd e))) xs \<Longrightarrow>
     \<exists>c'. unregisterEach (map fst xs) c = Returns c'"
proof (induction xs arbitrary: c)
  case Nil
  then show ?case by simp
next
  case (Cons e rest)
  obtain k b where e: "e = (k, b)" by (cases e) auto
  have fresh: "k \<notin> fst ` set rest"
    using Cons.prems(2) by (simp add: e)
  obtain b' where halt: "haltThreads b = Returns b'"
    using Cons.prems(3) haltThreads_total [of b] by (auto simp add: e)
  have head: "unregisterBDV c k = Returns (c\<lparr>BDVs := rest, tornDown := tornDown c @ [(k, b')]\<rparr>)"
    using Cons.prems(1) fresh halt unregisterBDV_head [of c k b rest] by (simp add: e)
  have "\<exists>c'. unregisterEach (map fst rest)
                (c\<lparr>BDVs := rest, tornDown := tornDown c @ [(k, b')]\<rparr>) = Returns c'"
    using Cons.prems by (intro Cons.IH) simp_all
  then show ?case by (simp add: e head)
qed

lemma join_all: "list_all (\<lambda>t. t \<noteq> Running) (map join ts)"
  by (induction ts) (simp_all add: join_not_Running)

text \<open>
  Claim C7, as the model has it. On a registry that holds at most one session per
  identifier, the shutdown returns whenever no channel's mutex is held by another thread.
  When it has returned: the run flag is cleared and the three queues are terminated; the
  registry's background threads are the ones it had, each joined, and none is running;
  the registry holds no session; every session it held has been torn down, in the order of
  the entries, and after the teardown its worker thread is joined and not running, a poll
  channel has its queue terminated and its mutex free and reports terminated to a poll,
  and a push channel is what it was before; and the external hook has been invoked once
  more than before the call.
\<close>

theorem shutdown_Clients_sequence:
  fixes clients :: "('n, 'c, 'h) Clients"
  assumes "distinct (map fst (BDVs clients))"
  shows
    "(list_all (\<lambda>e. mutexFree (cb (snd e))) (BDVs clients) \<longrightarrow>
        (\<exists>c'. shutdown_Clients clients = Returns c')) \<and>
     (shutdown_Clients clients = Returns c' \<longrightarrow>
        \<not> run c' \<and>
        terminated (gcCommands c') \<and>
        terminated (outerBDVNotifStack c') \<and>
        terminated (innerBDVNotifStack c') \<and>
        controlThreads c' = map join (controlThreads clients) \<and>
        list_all (\<lambda>t. t \<noteq> Running) (controlThreads c') \<and>
        BDVs c' = [] \<and>
        take (length (tornDown clients)) (tornDown c') = tornDown clients \<and>
        list_all2
          (\<lambda>e d. fst d = fst e \<and>
             initT (snd d) = join (initT (snd e)) \<and> initT (snd d) \<noteq> Running \<and>
             (case cb (snd e) of
                None \<Rightarrow> cb (snd d) = None
              | Some (LongPoll_cb lp) \<Rightarrow>
                  cb (snd d) =
                    Some (LongPoll_cb (lp\<lparr>notificationStack := terminate (notificationStack lp)\<rparr>)) \<and>
                  reportsTerminated (cb (snd d)) \<and> mutexFree (cb (snd d))
              | Some (WS_Callback bdvid) \<Rightarrow> cb (snd d) = Some (WS_Callback bdvid)))
          (BDVs clients) (drop (length (tornDown clients)) (tornDown c')) \<and>
        shutdownCallback_calls c' = Suc (shutdownCallback_calls clients))"
proof -
  let ?c3 = "clients\<lparr>run := False,
      gcCommands := terminate (gcCommands clients),
      outerBDVNotifStack := terminate (outerBDVNotifStack clients),
      innerBDVNotifStack := terminate (innerBDVNotifStack clients),
      controlThreads := map join (controlThreads clients)\<rparr>"
  let ?down = "\<lambda>e. (fst e, outcome_state (haltThreads (snd e)))"
  let ?post = "\<lambda>(e :: string \<times> ('n, 'c, 'h) BDV_Server_Object)
        (d :: string \<times> ('n, 'c, 'h) BDV_Server_Object). fst d = fst e \<and>
             initT (snd d) = join (initT (snd e)) \<and> initT (snd d) \<noteq> Running \<and>
             (case cb (snd e) of
                None \<Rightarrow> cb (snd d) = None
              | Some (LongPoll_cb lp) \<Rightarrow>
                  cb (snd d) =
                    Some (LongPoll_cb (lp\<lparr>notificationStack := terminate (notificationStack lp)\<rparr>)) \<and>
                  reportsTerminated (cb (snd d)) \<and> mutexFree (cb (snd d))
              | Some (WS_Callback bdvid) \<Rightarrow> cb (snd d) = Some (WS_Callback bdvid))"
  have sd: "shutdown_Clients clients =
      then_do (unregisterEach (map fst (BDVs clients)) ?c3)
        (\<lambda>c4. Returns (c4\<lparr>shutdownCallback_calls := Suc (shutdownCallback_calls c4)\<rparr>))"
    by (simp add: shutdown_Clients_def unregisterAllBDVs_def Let_def)
  have total: "\<exists>c'. shutdown_Clients clients = Returns c'"
    if "list_all (\<lambda>e. mutexFree (cb (snd e))) (BDVs clients)"
  proof -
    have "\<exists>c4. unregisterEach (map fst (BDVs clients)) ?c3 = Returns c4"
      using assms that by (intro unregisterEach_total) simp_all
    then obtain c4 where "unregisterEach (map fst (BDVs clients)) ?c3 = Returns c4" ..
    then show ?thesis by (simp add: sd)
  qed
  have post: "\<not> run c' \<and>
        terminated (gcCommands c') \<and>
        terminated (outerBDVNotifStack c') \<and>
        terminated (innerBDVNotifStack c') \<and>
        controlThreads c' = map join (controlThreads clients) \<and>
        list_all (\<lambda>t. t \<noteq> Running) (controlThreads c') \<and>
        BDVs c' = [] \<and>
        take (length (tornDown clients)) (tornDown c') = tornDown clients \<and>
        list_all2 ?post (BDVs clients) (drop (length (tornDown clients)) (tornDown c')) \<and>
        shutdownCallback_calls c' = Suc (shutdownCallback_calls clients)"
    if ret: "shutdown_Clients clients = Returns c'"
  proof -
    obtain c4 where c4: "unregisterEach (map fst (BDVs clients)) ?c3 = Returns c4"
      and c': "c' = c4\<lparr>shutdownCallback_calls := Suc (shutdownCallback_calls c4)\<rparr>"
      using ret unfolding sd
      by (cases "unregisterEach (map fst (BDVs clients)) ?c3") simp_all
    have all: "c4 = ?c3\<lparr>BDVs := [],
            tornDown := tornDown ?c3 @ map ?down (BDVs clients)\<rparr> \<and>
      list_all (\<lambda>e. \<exists>b'. haltThreads (snd e) = Returns b') (BDVs clients)"
      using assms c4 by (intro unregisterEach_all) simp_all
    define post where "post = ?post"
    have each: "post e (?down e)" if mem: "e \<in> set (BDVs clients)" for e
    proof -
      obtain b' where h: "haltThreads (snd e) = Returns b'"
        using all mem by (auto simp add: list_all_iff)
      have down: "(fst e, outcome_state (haltThreads (snd e))) = (fst e, b')"
        by (simp add: h)
      show ?thesis
        unfolding post_def down snd_conv fst_conv using haltThreads_post [OF h]
        by (simp add: join_not_Running)
    qed
    have "list_all2 post (BDVs clients) (map ?down (BDVs clients))"
      unfolding list_all2_map2 using each by (simp add: list_all2_same)
    then have logged: "list_all2 ?post (BDVs clients) (map ?down (BDVs clients))"
      unfolding post_def .
    have state: "c' = ?c3\<lparr>BDVs := [],
            tornDown := tornDown clients @ map ?down (BDVs clients),
            shutdownCallback_calls := Suc (shutdownCallback_calls clients)\<rparr>"
      using all by (simp add: c')
    have dr: "drop (length (tornDown clients)) (tornDown c') = map ?down (BDVs clients)"
      by (simp add: state)
    have lg: "list_all2 ?post (BDVs clients) (drop (length (tornDown clients)) (tornDown c'))"
      unfolding dr by (rule logged)
    have rest: "\<not> run c' \<and>
        terminated (gcCommands c') \<and>
        terminated (outerBDVNotifStack c') \<and>
        terminated (innerBDVNotifStack c') \<and>
        controlThreads c' = map join (controlThreads clients) \<and>
        list_all (\<lambda>t. t \<noteq> Running) (controlThreads c') \<and>
        BDVs c' = [] \<and>
        take (length (tornDown clients)) (tornDown c') = tornDown clients \<and>
        shutdownCallback_calls c' = Suc (shutdownCallback_calls clients)"
      using join_all [of "controlThreads clients"] by (simp add: state terminate_def)
    from rest lg show ?thesis by blast
  qed
  show ?thesis using total post by blast
qed

theorem shutdown_Clients_sequence_witness:
  "distinct (map fst (BDVs two_clients)) \<and>
   list_all (\<lambda>e. mutexFree (cb (snd e))) (BDVs two_clients) \<and>
   shutdown_Clients two_clients = Returns two_clients_down \<and>
   \<not> run two_clients_down \<and>
   terminated (gcCommands two_clients_down) \<and>
   terminated (outerBDVNotifStack two_clients_down) \<and>
   terminated (innerBDVNotifStack two_clients_down) \<and>
   controlThreads two_clients_down = [Joined, Joined, Joined] \<and>
   BDVs two_clients_down = [] \<and>
   tornDown two_clients_down = [(''p'', poll_session_down), (''w'', push_session_down)] \<and>
   initT poll_session = Running \<and> initT poll_session_down = Joined \<and>
   initT push_session = Running \<and> initT push_session_down = Joined \<and>
   reportsTerminated (cb poll_session_down) \<and>
   cb push_session_down = cb push_session \<and>
   shutdownCallback_calls two_clients_down = Suc (shutdownCallback_calls two_clients)"
proof -
  have d: "distinct (map fst (BDVs two_clients))"
    by (simp add: two_clients_def)
  have m: "list_all (\<lambda>e. mutexFree (cb (snd e))) (BDVs two_clients)"
    by (simp add: two_clients_def poll_session_def push_session_def expired_channel_def
        fresh_channel_def LongPoll_ctor_def)
  have hp: "haltThreads poll_session = Returns poll_session_down"
    by (simp add: haltThreads_def poll_session_down_def poll_session_def push_session_def
        expired_channel_def fresh_channel_def LongPoll_ctor_def empty_stack_def
        shutdown_LongPoll_def terminate_def Let_def)
  have hw: "haltThreads push_session = Returns push_session_down"
    by (simp add: haltThreads_def push_session_down_def push_session_def Let_def)
  have r: "shutdown_Clients two_clients = Returns two_clients_down"
    by (simp add: shutdown_Clients_def unregisterAllBDVs_def unregisterBDV_def hp hw
        two_clients_def two_clients_down_def Clients_init_def empty_stack_def terminate_def
        Let_def)
  have t: "tornDown two_clients = [] \<and>
      BDVs two_clients = [(''p'', poll_session), (''w'', push_session)] \<and>
      controlThreads two_clients = [Running, Running, Running] \<and>
      tornDown two_clients_down = [(''p'', poll_session_down), (''w'', push_session_down)]"
    by (simp add: two_clients_def two_clients_down_def Clients_init_def)
  have s: "initT poll_session = Running \<and> initT push_session = Running \<and>
      cb poll_session = Some (LongPoll_cb expired_channel) \<and>
      cb push_session = Some (WS_Callback 7)"
    by (simp add: poll_session_def push_session_def)
  have pd: "initT poll_session_down = Joined \<and> initT push_session_down = Joined \<and>
      reportsTerminated (cb poll_session_down) \<and> cb push_session_down = Some (WS_Callback 7)"
    by (simp add: poll_session_down_def push_session_down_def push_session_def respond_def)
  have td: "\<not> run two_clients_down \<and>
      terminated (gcCommands two_clients_down) \<and>
      terminated (outerBDVNotifStack two_clients_down) \<and>
      terminated (innerBDVNotifStack two_clients_down) \<and>
      controlThreads two_clients_down = [Joined, Joined, Joined] \<and>
      BDVs two_clients_down = []"
    by (simp add: two_clients_down_def)
  show ?thesis
    using shutdown_Clients_sequence [OF d, of two_clients_down] d m r
    by (simp add: t s pd td respond_def terminate_def)
qed

text \<open>
  Claim C7 as stated says that the channel of every session reports terminated. The
  registry of the two sessions shuts down and tears both down; the push channel of the
  second is after the teardown what it was before, \<^verbatim>\<open>WS_Callback::shutdown\<close> being
  empty, and still answers that it is live.
\<close>

theorem shutdown_Clients_push_counterexample:
  "shutdown_Clients two_clients = Returns two_clients_down \<and>
   tornDown two_clients_down = [(''p'', poll_session_down), (''w'', push_session_down)] \<and>
   cb push_session_down = Some (WS_Callback 7) \<and>
   shutdown (WS_Callback 7 :: nat Callback) = Returns (WS_Callback 7) \<and>
   fst (isValid (WS_Callback 7 :: nat Callback)) \<and>
   \<not> reportsTerminated (cb push_session_down)"
proof -
  have hp: "haltThreads poll_session = Returns poll_session_down"
    by (simp add: haltThreads_def poll_session_down_def poll_session_def push_session_def
        expired_channel_def fresh_channel_def LongPoll_ctor_def empty_stack_def
        shutdown_LongPoll_def terminate_def Let_def)
  have hw: "haltThreads push_session = Returns push_session_down"
    by (simp add: haltThreads_def push_session_down_def push_session_def Let_def)
  have r: "shutdown_Clients two_clients = Returns two_clients_down"
    by (simp add: shutdown_Clients_def unregisterAllBDVs_def unregisterBDV_def hp hw
        two_clients_def two_clients_down_def Clients_init_def empty_stack_def terminate_def
        Let_def)
  show ?thesis
    using r by (simp add: two_clients_down_def push_session_down_def push_session_def)
qed

end
